theory Spec2Isabelle
  imports Main
begin

section \<open>The hero store of \<open>hero.service.ts\<close>\<close>

text \<open>
  The service keeps one private signal holding an array of heroes and answers every
  request with an observable that carries either one value or one error. The embedding
  follows the class: the service is a record with the field \<open>heroesSignal\<close>, every
  method takes the service and returns the emitted result together with the service after
  the call, \<open>throwError\<close> is the left injection of a sum and \<open>of\<close> the right one.
  The \<open>delay\<close> operator postpones delivery only, so it does not appear in the results.
\<close>

subsection \<open>Strings of the host language\<close>

text \<open>
  A string is a list of characters; a character stands for one code unit below 256.
  On that range \<open>toLowerCase\<close> maps \<open>A\<close> to \<open>Z\<close> and the accented capitals
  192 to 222 (without the multiplication sign 215) to the code unit 32 above, and
  \<open>trim\<close> removes tab, line feed, vertical tab, form feed, carriage return, space and
  the no-break space 160 from both ends.
\<close>

definition lowerChar :: "char \<Rightarrow> char" where
  "lowerChar c =
     (let n = (of_char c :: nat)
      in if (65 \<le> n \<and> n \<le> 90) \<or> (192 \<le> n \<and> n \<le> 222 \<and> n \<noteq> 215)
         then char_of (n + 32) else c)"

definition toLowerCase :: "string \<Rightarrow> string" where
  "toLowerCase s = map lowerChar s"

definition isWhiteSpace :: "char \<Rightarrow> bool" where
  "isWhiteSpace c =
     (let n = (of_char c :: nat) in (9 \<le> n \<and> n \<le> 13) \<or> n = 32 \<or> n = 160)"

definition trim :: "string \<Rightarrow> string" where
  "trim s = rev (dropWhile isWhiteSpace (rev (dropWhile isWhiteSpace s)))"

text \<open>
  \<open>s.includes(t)\<close> looks for the first position of \<open>s\<close> at which \<open>t\<close> starts;
  the empty string starts at every position, also at the end.
\<close>

fun startsWith :: "'a list \<Rightarrow> 'a list \<Rightarrow> bool" where
  "startsWith s [] = True"
| "startsWith [] (y # t) = False"
| "startsWith (x # s) (y # t) = (x = y \<and> startsWith s t)"

fun includes_str :: "'a list \<Rightarrow> 'a list \<Rightarrow> bool" where
  "includes_str [] t = (t = [])"
| "includes_str (x # s) t = (startsWith (x # s) t \<or> includes_str s t)"

text \<open>
  \<open>xs.slice(start, end)\<close> on arrays and on strings: a negative bound counts from the
  end, both bounds are clamped to the length, and an empty range gives the empty list.
\<close>

definition slice :: "'a list \<Rightarrow> int \<Rightarrow> int \<Rightarrow> 'a list" where
  "slice xs start end' =
     (let n = int (length xs);
          k = (if start < 0 then max (n + start) 0 else min start n);
          f = (if end' < 0 then max (n + end') 0 else min end' n)
      in take (nat (f - k)) (drop (nat k) xs))"

definition sliceFrom :: "'a list \<Rightarrow> int \<Rightarrow> 'a list" where
  "sliceFrom xs start = slice xs start (int (length xs))"

text \<open>\<open>xs.findIndex(p)\<close> scans from index 0 and answers \<open>-1\<close> when nothing matches.\<close>

fun findIndexFrom :: "('a \<Rightarrow> bool) \<Rightarrow> 'a list \<Rightarrow> int \<Rightarrow> int" where
  "findIndexFrom p [] k = - 1"
| "findIndexFrom p (x # xs) k = (if p x then k else findIndexFrom p xs (k + 1))"

definition findIndex :: "('a \<Rightarrow> bool) \<Rightarrow> 'a list \<Rightarrow> int" where
  "findIndex p xs = findIndexFrom p xs 0"

text \<open>
  A number in a template literal is written in decimal; the clock readings are integers
  far below the range where the host language switches to exponents.
\<close>

definition digitChar :: "nat \<Rightarrow> char" where
  "digitChar d = char_of (48 + d)"

fun digits :: "nat \<Rightarrow> string" where
  "digits n = (if n < 10 then [digitChar n] else digits (n div 10) @ [digitChar (n mod 10)])"

declare digits.simps [simp del]

definition numberToString :: "int \<Rightarrow> string" where
  "numberToString i = (if i < 0 then CHR ''-'' # digits (nat (- i)) else digits (nat i))"

subsection \<open>The domain model of \<open>hero.model.ts\<close>\<close>

text \<open>
  A \<open>Date\<close> is its time value, the milliseconds since the epoch. An optional property
  of a hero or of a create request is an option: \<open>None\<close> for a property that is not
  there or holds \<open>undefined\<close>, which no reader of the property can tell apart.

  In a patch the difference matters, because the spread in \<open>update\<close> copies every
  property the patch has. \<open>update_description\<close> is \<open>None\<close> for an absent property
  and \<open>Some d\<close> for a present one, where \<open>d\<close> is \<open>None\<close> for the value
  \<open>undefined\<close>. \<open>update_name\<close> is \<open>None\<close> for an absent property and
  \<open>Some n\<close> for a property that holds the string \<open>n\<close>.

  The record \<open>UpdateHeroDto\<close> holds the patches of the declared shape and no others.
  Two kinds of object that the type checker also lets through are not values of it: a
  patch whose \<open>name\<close> is present with the value \<open>undefined\<close>, after which the
  stored object has no name and is not a \<open>Hero\<close>; and an object with further
  properties, such as a hero passed as a patch, whose \<open>id\<close> and \<open>createdAt\<close> the
  spread copies as well. Every statement below about \<open>update\<close> speaks of the patches
  of this record.
\<close>

type_synonym date = int

record Hero =
  id_of :: string
  name :: string
  description :: "string option"
  createdAt :: date

record CreateHeroDto =
  create_name :: string
  create_description :: "string option"

record UpdateHeroDto =
  update_name :: "string option"
  update_description :: "string option option"

subsection \<open>Observables and the service state\<close>

datatype error = Error (message: string)

type_synonym 'a observable = "error + 'a"

definition of_value :: "'a \<Rightarrow> 'a observable" where
  "of_value v = Inr v"

definition throwError :: "error \<Rightarrow> 'a observable" where
  "throwError e = Inl e"

record HeroService =
  heroesSignal :: "Hero list"

text \<open>
  What a call of \<open>create\<close> reads from its surroundings, in the order of the reads:
  \<open>Date.now()\<close> and \<open>Math.random().toString(36)\<close> inside \<open>generateId\<close>, then the
  clock again for \<open>new Date()\<close>. \<open>invokedAt\<close> is the time at which the call
  starts; the code does not read it, and nothing relates it to the two readings: the
  clock of \<open>Date\<close> is the system clock, which can be set back. The conversion of the
  random fraction to base 36 is floating-point arithmetic of the host and is taken as
  given.
\<close>

record Env =
  invokedAt :: int
  dateNow :: int
  random36 :: string
  newDate :: date

subsection \<open>The constructed service\<close>

text \<open>
  The field initialiser of \<open>heroesSignal\<close>. A date-only string such as
  \<open>2024-01-01\<close> is read as midnight UTC, so the three dates are the time values
  below.
\<close>

definition initialService :: HeroService where
  "initialService =
     \<lparr>heroesSignal =
        [\<lparr>id_of = ''1'', name = ''Superman'', description = Some ''Man of Steel'',
           createdAt = 1704067200000\<rparr>,
         \<lparr>id_of = ''2'', name = ''Spiderman'',
           description = Some ''Your friendly neighborhood Spider-Man'',
           createdAt = 1704153600000\<rparr>,
         \<lparr>id_of = ''3'', name = ''Batman'', description = Some ''The Dark Knight'',
           createdAt = 1704240000000\<rparr>]\<rparr>"

subsection \<open>The methods\<close>

definition getAll :: "HeroService \<Rightarrow> Hero list observable \<times> HeroService" where
  "getAll svc = (of_value (heroesSignal svc), svc)"

definition getById :: "string \<Rightarrow> HeroService \<Rightarrow> Hero option observable \<times> HeroService" where
  "getById i svc =
     (let hero = find (\<lambda>h. id_of h = i) (heroesSignal svc)
      in (of_value hero, svc))"

definition searchByName :: "string \<Rightarrow> HeroService \<Rightarrow> Hero list observable \<times> HeroService" where
  "searchByName term svc =
     (let normalizedTerm = trim (toLowerCase term)
      in if normalizedTerm = [] then getAll svc
         else
           let filtered =
                 filter (\<lambda>hero. includes_str (toLowerCase (name hero)) normalizedTerm)
                   (heroesSignal svc)
           in (of_value filtered, svc))"

definition generateId :: "Env \<Rightarrow> string" where
  "generateId env = numberToString (dateNow env) @ ''-'' @ slice (random36 env) 2 11"

definition create :: "CreateHeroDto \<Rightarrow> Env \<Rightarrow> HeroService \<Rightarrow> Hero observable \<times> HeroService" where
  "create dto env svc =
     (let newHero =
            \<lparr>id_of = generateId env, name = create_name dto,
             description = create_description dto, createdAt = newDate env\<rparr>
      in (of_value newHero, svc\<lparr>heroesSignal := heroesSignal svc @ [newHero]\<rparr>))"

definition notFound :: "string \<Rightarrow> error" where
  "notFound i = Error (''Hero with id '' @ i @ '' not found'')"

text \<open>
  The spread \<open>{...hero, ...dto}\<close> copies the hero and then every property the patch
  has; a patch of the record \<open>UpdateHeroDto\<close> has no other property than \<open>name\<close>
  and \<open>description\<close>, so \<open>id\<close> and \<open>createdAt\<close> come from the hero.
  In \<open>update\<close> the array is read at \<open>index\<close> only after the test against \<open>-1\<close>,
  and \<open>findIndex\<close> answers \<open>-1\<close> or a position of the array (\<open>findIndex_some\<close>,
  \<open>findIndex_none\<close> below), so the read is in range.
\<close>

definition spread :: "Hero \<Rightarrow> UpdateHeroDto \<Rightarrow> Hero" where
  "spread h dto =
     h\<lparr>name := (case update_name dto of None \<Rightarrow> name h | Some n \<Rightarrow> n),
       description :=
         (case update_description dto of None \<Rightarrow> description h | Some d \<Rightarrow> d)\<rparr>"

definition update :: "string \<Rightarrow> UpdateHeroDto \<Rightarrow> HeroService \<Rightarrow> Hero observable \<times> HeroService" where
  "update i dto svc =
     (let currentHeroes = heroesSignal svc;
          index = findIndex (\<lambda>h. id_of h = i) currentHeroes
      in if index = - 1 then (throwError (notFound i), svc)
         else
           let updatedHero = spread (currentHeroes ! nat index) dto;
               updatedHeroes =
                 slice currentHeroes 0 index @ [updatedHero] @ sliceFrom currentHeroes (index + 1)
           in (of_value updatedHero, svc\<lparr>heroesSignal := updatedHeroes\<rparr>))"

definition delete :: "string \<Rightarrow> HeroService \<Rightarrow> unit observable \<times> HeroService" where
  "delete i svc =
     (let currentHeroes = heroesSignal svc;
          exists = list_ex (\<lambda>h. id_of h = i) currentHeroes
      in if \<not> exists then (throwError (notFound i), svc)
         else (of_value (), svc\<lparr>heroesSignal := filter (\<lambda>h. id_of h \<noteq> i) (heroesSignal svc)\<rparr>))"

text \<open>\<open>resetToInitialState\<close> sets the signal to an array literal of its own.\<close>

definition resetToInitialState :: "HeroService \<Rightarrow> HeroService" where
  "resetToInitialState svc =
     svc\<lparr>heroesSignal :=
        [\<lparr>id_of = ''1'', name = ''Superman'', description = Some ''Man of Steel'',
           createdAt = 1704067200000\<rparr>,
         \<lparr>id_of = ''2'', name = ''Spiderman'',
           description = Some ''Your friendly neighborhood Spider-Man'',
           createdAt = 1704153600000\<rparr>,
         \<lparr>id_of = ''3'', name = ''Batman'', description = Some ''The Dark Knight'',
           createdAt = 1704240000000\<rparr>]\<rparr>"

subsection \<open>Sequences of calls\<close>

text \<open>
  A state of the store is reachable when a finite sequence of method calls leads to it
  from the constructed service. A request names one call with its arguments; \<open>call\<close>
  gives the service after the call and \<open>run\<close> performs a sequence.
\<close>

datatype request =
    GetAll
  | GetById string
  | SearchByName string
  | Create CreateHeroDto Env
  | Update string UpdateHeroDto
  | Delete string
  | ResetToInitialState

fun call :: "request \<Rightarrow> HeroService \<Rightarrow> HeroService" where
  "call GetAll svc = snd (getAll svc)"
| "call (GetById i) svc = snd (getById i svc)"
| "call (SearchByName term) svc = snd (searchByName term svc)"
| "call (Create dto env) svc = snd (create dto env svc)"
| "call (Update i dto) svc = snd (update i dto svc)"
| "call (Delete i) svc = snd (delete i svc)"
| "call ResetToInitialState svc = resetToInitialState svc"

fun run :: "request list \<Rightarrow> HeroService \<Rightarrow> HeroService" where
  "run [] svc = svc"
| "run (r # rs) svc = run rs (call r svc)"

fun isMutation :: "request \<Rightarrow> bool" where
  "isMutation (Create dto env) = True"
| "isMutation (Update i dto) = True"
| "isMutation (Delete i) = True"
| "isMutation ResetToInitialState = True"
| "isMutation r = False"

definition heroIds :: "HeroService \<Rightarrow> string list" where
  "heroIds svc = map id_of (heroesSignal svc)"

text \<open>
  \<open>namedRequest r\<close>: a \<open>create\<close> request carries a non-empty name, and the patch
  of an \<open>update\<close> has no \<open>name\<close> property or one that holds a non-empty string.
\<close>

fun namedRequest :: "request \<Rightarrow> bool" where
  "namedRequest (Create dto env) = (create_name dto \<noteq> [])"
| "namedRequest (Update i dto) = (case update_name dto of None \<Rightarrow> True | Some n \<Rightarrow> n \<noteq> [])"
| "namedRequest r = True"

text \<open>
  The normalised search term in the order the specification gives: trimmed, then
  lower-cased. \<open>searchByName\<close> lower-cases first and trims second.
\<close>

definition normalizedSpec :: "string \<Rightarrow> string" where
  "normalizedSpec term = toLowerCase (trim term)"

subsection \<open>Sample inputs\<close>

text \<open>Concrete arguments at which the theorems below are evaluated.\<close>

definition renamePatch :: UpdateHeroDto where
  "renamePatch = \<lparr>update_name = Some ''Clark Kent'', update_description = None\<rparr>"

definition wonderWoman :: CreateHeroDto where
  "wonderWoman = \<lparr>create_name = ''Wonder Woman'', create_description = Some ''Amazon Princess''\<rparr>"

definition sampleEnv :: Env where
  "sampleEnv = \<lparr>invokedAt = 1717243200000, dateNow = 1717243200001,
                random36 = ''0.4fzyo82mvyr'', newDate = 1717243200001\<rparr>"


definition flash :: CreateHeroDto where
  "flash = \<lparr>create_name = ''Flash'', create_description = Some ''The Fastest Man Alive''\<rparr>"

definition nameless :: CreateHeroDto where
  "nameless = \<lparr>create_name = [], create_description = None\<rparr>"

definition collidedService :: HeroService where
  "collidedService = run [Create wonderWoman sampleEnv, Create flash sampleEnv] initialService"

section \<open>Facts about the library functions\<close>

lemma startsWith_iff: "startsWith s t = (\<exists>q. s = t @ q)"
  by (induction s t rule: startsWith.induct) auto

lemma includes_str_iff: "includes_str s t = (\<exists>p q. s = p @ t @ q)"
proof (induction s)
  case Nil
  then show ?case by auto
next
  case (Cons x s)
  show ?case
  proof
    assume "includes_str (x # s) t"
    then consider "startsWith (x # s) t" | "includes_str s t" by auto
    then show "\<exists>p q. x # s = p @ t @ q"
    proof cases
      case 1
      then obtain q where "x # s = t @ q" by (auto simp: startsWith_iff)
      then have "x # s = [] @ t @ q" by simp
      then show ?thesis by blast
    next
      case 2
      then obtain p q where "s = p @ t @ q" using Cons.IH by auto
      then have "x # s = (x # p) @ t @ q" by simp
      then show ?thesis by blast
    qed
  next
    assume "\<exists>p q. x # s = p @ t @ q"
    then obtain p q where pq: "x # s = p @ t @ q" by blast
    show "includes_str (x # s) t"
    proof (cases p)
      case Nil
      then have "startsWith (x # s) t" using pq by (auto simp: startsWith_iff)
      then show ?thesis by simp
    next
      case (Cons y p')
      then have "s = p' @ t @ q" using pq by simp
      then have "includes_str s t" using Cons.IH by blast
      then show ?thesis by simp
    qed
  qed
qed

lemma lowerChar_ws: "isWhiteSpace (lowerChar c) = isWhiteSpace c"
  by (auto simp: isWhiteSpace_def lowerChar_def Let_def)

lemma trim_toLowerCase: "trim (toLowerCase s) = toLowerCase (trim s)"
proof -
  have c: "isWhiteSpace \<circ> lowerChar = isWhiteSpace"
    by (rule ext) (simp add: lowerChar_ws)
  show ?thesis
    by (simp add: trim_def toLowerCase_def dropWhile_map rev_map c)
qed

lemma slice_prefix: "0 \<le> i \<Longrightarrow> i \<le> int (length xs) \<Longrightarrow> slice xs 0 i = take (nat i) xs"
  by (simp add: slice_def Let_def)

lemma sliceFrom_suffix: "0 \<le> i \<Longrightarrow> i \<le> int (length xs) \<Longrightarrow> sliceFrom xs i = drop (nat i) xs"
  by (simp add: sliceFrom_def slice_def Let_def)

lemma findIndexFrom_none: "0 \<le> k \<Longrightarrow> (findIndexFrom p xs k = - 1) = (\<forall>x\<in>set xs. \<not> p x)"
  by (induction xs arbitrary: k) auto

lemma findIndexFrom_some:
  "0 \<le> k \<Longrightarrow> \<exists>x\<in>set xs. p x \<Longrightarrow>
   \<exists>n. n < length xs \<and> findIndexFrom p xs k = k + int n \<and> p (xs ! n) \<and> (\<forall>j<n. \<not> p (xs ! j))"
proof (induction xs arbitrary: k)
  case Nil
  then show ?case by simp
next
  case (Cons x xs)
  show ?case
  proof (cases "p x")
    case True
    then have "0 < length (x # xs) \<and> findIndexFrom p (x # xs) k = k + int 0 \<and> p ((x # xs) ! 0) \<and> (\<forall>j<0. \<not> p ((x # xs) ! j))"
      by simp
    then show ?thesis by blast
  next
    case False
    then have ex: "\<exists>x\<in>set xs. p x" using Cons.prems by auto
    have "0 \<le> k + 1" using Cons.prems by simp
    from Cons.IH[OF this ex] obtain n where n: "n < length xs" "findIndexFrom p xs (k + 1) = k + 1 + int n"
      "p (xs ! n)" "\<forall>j<n. \<not> p (xs ! j)" by blast
    have "\<forall>j<Suc n. \<not> p ((x # xs) ! j)"
    proof (intro allI impI)
      fix j assume "j < Suc n"
      then show "\<not> p ((x # xs) ! j)" using False n(4) by (cases j) auto
    qed
    then have "Suc n < length (x # xs) \<and> findIndexFrom p (x # xs) k = k + int (Suc n) \<and> p ((x # xs) ! Suc n) \<and> (\<forall>j<Suc n. \<not> p ((x # xs) ! j))"
      using False n by simp
    then show ?thesis by blast
  qed
qed

lemma findIndex_none: "(findIndex p xs = - 1) = (\<forall>x\<in>set xs. \<not> p x)"
  by (simp add: findIndex_def findIndexFrom_none)

lemma findIndex_some:
  "\<exists>x\<in>set xs. p x \<Longrightarrow>
   \<exists>n. n < length xs \<and> findIndex p xs = int n \<and> p (xs ! n) \<and> (\<forall>j<n. \<not> p (xs ! j))"
  using findIndexFrom_some[of 0 xs p] by (simp add: findIndex_def)

section \<open>The two failing methods and the located record\<close>

lemma update_absent:
  "i \<notin> set (heroIds svc) \<Longrightarrow> update i dto svc = (Inl (notFound i), svc)"
proof -
  assume "i \<notin> set (heroIds svc)"
  then have "\<forall>h\<in>set (heroesSignal svc). \<not> id_of h = i"
    by (auto simp: heroIds_def)
  then have "findIndex (\<lambda>h. id_of h = i) (heroesSignal svc) = - 1"
    by (simp only: findIndex_none)
  then show ?thesis
    by (simp add: update_def throwError_def)
qed

lemma update_located:
  assumes "i \<in> set (heroIds svc)"
  shows "\<exists>n<length (heroesSignal svc).
           id_of (heroesSignal svc ! n) = i \<and>
           (\<forall>j<n. id_of (heroesSignal svc ! j) \<noteq> i) \<and>
           update i dto svc =
             (Inr (spread (heroesSignal svc ! n) dto),
              svc\<lparr>heroesSignal := (heroesSignal svc)[n := spread (heroesSignal svc ! n) dto]\<rparr>)"
proof -
  let ?hs = "heroesSignal svc"
  from assms have "\<exists>h\<in>set ?hs. id_of h = i"
    by (auto simp: heroIds_def)
  from findIndex_some[OF this] obtain n where n: "n < length ?hs"
    "findIndex (\<lambda>h. id_of h = i) ?hs = int n" "id_of (?hs ! n) = i"
    "\<forall>j<n. id_of (?hs ! j) \<noteq> i" by blast
  have a: "slice ?hs 0 (int n) = take n ?hs"
    using n(1) by (simp add: slice_prefix)
  have b: "sliceFrom ?hs (int n + 1) = drop (Suc n) ?hs"
    using n(1) sliceFrom_suffix[of "int n + 1" ?hs] by (simp add: nat_add_distrib)
  have c: "\<And>u. take n ?hs @ u # drop (Suc n) ?hs = ?hs[n := u]"
    using n(1) by (simp add: upd_conv_take_nth_drop)
  have "update i dto svc =
          (Inr (spread (?hs ! n) dto), svc\<lparr>heroesSignal := ?hs[n := spread (?hs ! n) dto]\<rparr>)"
    unfolding update_def Let_def n(2) by (simp add: of_value_def a b c)
  with n show ?thesis by blast
qed

lemma delete_absent:
  "i \<notin> set (heroIds svc) \<Longrightarrow> delete i svc = (Inl (notFound i), svc)"
  by (auto simp: delete_def heroIds_def throwError_def list_ex_iff)

lemma delete_present:
  "i \<in> set (heroIds svc) \<Longrightarrow>
   delete i svc = (Inr (), svc\<lparr>heroesSignal := filter (\<lambda>h. id_of h \<noteq> i) (heroesSignal svc)\<rparr>)"
  by (auto simp: delete_def heroIds_def of_value_def list_ex_iff)

lemma includes_middle: "includes_str (p @ t @ q) t"
  by (auto simp: includes_str_iff)

lemma notFound_mentions:
  "includes_str (message (notFound i)) ''not found'' \<and> includes_str (message (notFound i)) i"
proof
  have "message (notFound i) = (''Hero with id '' @ i @ '' '') @ ''not found'' @ []"
    by (simp add: notFound_def)
  then show "includes_str (message (notFound i)) ''not found''"
    by (simp only: includes_middle)
  have "message (notFound i) = ''Hero with id '' @ i @ '' not found''"
    by (simp add: notFound_def)
  then show "includes_str (message (notFound i)) i"
    by (simp only: includes_middle)
qed

section \<open>Evaluation at the sample inputs, and the result of a search\<close>

lemma digitChar_values:
  "digitChar 0 = CHR ''0''" "digitChar (Suc 0) = CHR ''1''" "digitChar 2 = CHR ''2''"
  "digitChar 3 = CHR ''3''" "digitChar 4 = CHR ''4''" "digitChar 5 = CHR ''5''"
  "digitChar 6 = CHR ''6''" "digitChar 7 = CHR ''7''" "digitChar 8 = CHR ''8''"
  "digitChar 9 = CHR ''9''"
  by code_simp+

lemma sampleEnv_reads:
  "invokedAt sampleEnv = 1717243200000" "newDate sampleEnv = 1717243200001"
  "generateId sampleEnv = ''1717243200001-4fzyo82mv''"
  by (simp_all add: sampleEnv_def generateId_def numberToString_def slice_def digits.simps
      digitChar_values)


lemma sample_run_state:
  "heroesSignal (run [Create wonderWoman sampleEnv, Delete ''1'', Update ''2'' renamePatch] initialService) =
   [\<lparr>id_of = ''2'', name = ''Clark Kent'',
        description = Some ''Your friendly neighborhood Spider-Man'',
        createdAt = 1704153600000\<rparr>,
      \<lparr>id_of = ''3'', name = ''Batman'', description = Some ''The Dark Knight'',
        createdAt = 1704240000000\<rparr>,
     \<lparr>id_of = ''1717243200001-4fzyo82mv'', name = ''Wonder Woman'',
           description = Some ''Amazon Princess'', createdAt = 1717243200001\<rparr>]"
  by (simp add: Let_def create_def delete_def update_def findIndex_def slice_def sliceFrom_def spread_def
      of_value_def throwError_def initialService_def sampleEnv_reads wonderWoman_def renamePatch_def)

lemma searchByName_result:
  "searchByName term svc =
     (Inr (if trim (toLowerCase term) = [] then heroesSignal svc
           else filter (\<lambda>h. includes_str (toLowerCase (name h)) (trim (toLowerCase term)))
                  (heroesSignal svc)), svc)"
  by (simp add: searchByName_def getAll_def of_value_def Let_def)

section \<open>Identifiers\<close>

text \<open>
  The decimal digits determine the number and contain no hyphen, so two identifiers are
  the same string exactly when the clock readings and the nine characters taken from the
  random fraction are the same (\<open>generateId_eq_iff\<close>).
\<close>

lemma digits_nonempty: "digits n \<noteq> []"
  by (subst digits.simps) simp

lemma digitChar_inj: "a < 10 \<Longrightarrow> b < 10 \<Longrightarrow> digitChar a = digitChar b \<Longrightarrow> a = b"
proof -
  assume a: "a < 10" and b: "b < 10" and e: "digitChar a = digitChar b"
  from e have "(of_char (char_of (48 + a)) :: nat) = of_char (char_of (48 + b))"
    by (simp add: digitChar_def)
  then have "(48 + a) mod 256 = (48 + b) mod 256"
    by (simp only: of_char_of)
  then show "a = b" using a b by simp
qed

lemma digitChar_not_minus: "d < 10 \<Longrightarrow> digitChar d \<noteq> CHR ''-''"
proof
  assume d: "d < 10" and e: "digitChar d = CHR ''-''"
  from e have "(of_char (char_of (48 + d)) :: nat) = of_char CHR ''-''"
    by (simp add: digitChar_def)
  then have "(48 + d) mod 256 = 45"
    by (simp only: of_char_of) simp
  then show False using d by simp
qed

lemma digits_no_minus: "CHR ''-'' \<notin> set (digits n)"
proof (induction n rule: digits.induct)
  case (1 n)
  show ?case
  proof (cases "n < 10")
    case True
    then show ?thesis using digitChar_not_minus[of n] by (subst digits.simps) auto
  next
    case False
    then have "CHR ''-'' \<notin> set (digits (n div 10))" using 1 by simp
    moreover have "digitChar (n mod 10) \<noteq> CHR ''-''" by (rule digitChar_not_minus) simp
    ultimately show ?thesis using False by (subst digits.simps) auto
  qed
qed

lemma digits_inj: "digits a = digits b \<Longrightarrow> a = b"
proof (induction a arbitrary: b rule: digits.induct)
  case (1 a)
  show ?case
  proof (cases "a < 10")
    case True
    then have da: "digits a = [digitChar a]" by (subst digits.simps) simp
    show ?thesis
    proof (cases "b < 10")
      case True
      then have "digits b = [digitChar b]" by (subst digits.simps) simp
      with da "1.prems" have "digitChar a = digitChar b" by simp
      then show ?thesis using \<open>a < 10\<close> True by (rule digitChar_inj[rotated 2])
    next
      case False
      then have "digits b = digits (b div 10) @ [digitChar (b mod 10)]"
        by (subst digits.simps) simp
      with da "1.prems" have "digits (b div 10) = []" by simp
      then show ?thesis using digits_nonempty by blast
    qed
  next
    case False
    then have da: "digits a = digits (a div 10) @ [digitChar (a mod 10)]"
      by (subst digits.simps) simp
    show ?thesis
    proof (cases "b < 10")
      case True
      then have "digits b = [digitChar b]" by (subst digits.simps) simp
      with da "1.prems" have "digits (a div 10) = []" by simp
      then show ?thesis using digits_nonempty by blast
    next
      case False
      then have "digits b = digits (b div 10) @ [digitChar (b mod 10)]"
        by (subst digits.simps) simp
      with da "1.prems" have e: "digits (a div 10) = digits (b div 10)"
        "digitChar (a mod 10) = digitChar (b mod 10)" by simp_all
      from "1.IH"[OF \<open>\<not> a < 10\<close> e(1)] have q: "a div 10 = b div 10" .
      have r: "a mod 10 = b mod 10"
        by (rule digitChar_inj[OF _ _ e(2)]) simp_all
      have "a = 10 * (a div 10) + a mod 10" by simp
      also have "\<dots> = 10 * (b div 10) + b mod 10" by (simp only: q r)
      also have "\<dots> = b" by simp
      finally show ?thesis .
    qed
  qed
qed

lemma split_at_first:
  "x \<notin> set u \<Longrightarrow> x \<notin> set v \<Longrightarrow> u @ x # s = v @ x # t \<Longrightarrow> u = v \<and> s = t"
proof (induction u arbitrary: v)
  case Nil
  then show ?case by (cases v) auto
next
  case (Cons a u)
  then show ?case by (cases v) auto
qed

lemma numberToString_split:
  "numberToString a @ CHR ''-'' # s = numberToString b @ CHR ''-'' # t \<Longrightarrow> a = b \<and> s = t"
proof -
  assume e: "numberToString a @ CHR ''-'' # s = numberToString b @ CHR ''-'' # t"
  have hd_digit: "\<And>n. hd (digits n) \<noteq> CHR ''-''"
    using digits_no_minus digits_nonempty by (metis hd_in_set)
  consider "a < 0" "b < 0" | "0 \<le> a" "0 \<le> b" | "a < 0" "0 \<le> b" | "0 \<le> a" "b < 0"
    by linarith
  then show ?thesis
  proof cases
    case 1
    with e have "digits (nat (- a)) @ CHR ''-'' # s = digits (nat (- b)) @ CHR ''-'' # t"
      by (simp add: numberToString_def)
    then have "digits (nat (- a)) = digits (nat (- b)) \<and> s = t"
      using split_at_first[OF digits_no_minus digits_no_minus] by blast
    then show ?thesis using 1 digits_inj[of "nat (- a)" "nat (- b)"] by auto
  next
    case 2
    with e have "digits (nat a) @ CHR ''-'' # s = digits (nat b) @ CHR ''-'' # t"
      by (simp add: numberToString_def)
    then have "digits (nat a) = digits (nat b) \<and> s = t"
      using split_at_first[OF digits_no_minus digits_no_minus] by blast
    then show ?thesis using 2 digits_inj[of "nat a" "nat b"] by auto
  next
    case 3
    with e have "CHR ''-'' # digits (nat (- a)) @ CHR ''-'' # s = digits (nat b) @ CHR ''-'' # t"
      by (simp add: numberToString_def)
    then have "hd (digits (nat b) @ CHR ''-'' # t) = CHR ''-''"
      by (metis list.sel(1))
    then have "hd (digits (nat b)) = CHR ''-''"
      using digits_nonempty by (simp add: hd_append)
    then show ?thesis using hd_digit by blast
  next
    case 4
    with e have "digits (nat a) @ CHR ''-'' # s = CHR ''-'' # digits (nat (- b)) @ CHR ''-'' # t"
      by (simp add: numberToString_def)
    then have "hd (digits (nat a) @ CHR ''-'' # s) = CHR ''-''"
      by (metis list.sel(1))
    then have "hd (digits (nat a)) = CHR ''-''"
      using digits_nonempty by (simp add: hd_append)
    then show ?thesis using hd_digit by blast
  qed
qed

lemma generateId_eq_iff:
  "(generateId e = generateId e') =
   (dateNow e = dateNow e' \<and> slice (random36 e) 2 11 = slice (random36 e') 2 11)"
  using numberToString_split[of "dateNow e" "slice (random36 e) 2 11" "dateNow e'" "slice (random36 e') 2 11"]
  by (auto simp: generateId_def)

lemma collided_state:
  "heroesSignal collidedService =
     heroesSignal initialService @
     [\<lparr>id_of = ''1717243200001-4fzyo82mv'', name = ''Wonder Woman'',
        description = Some ''Amazon Princess'', createdAt = 1717243200001\<rparr>,
      \<lparr>id_of = ''1717243200001-4fzyo82mv'', name = ''Flash'',
        description = Some ''The Fastest Man Alive'', createdAt = 1717243200001\<rparr>]"
  by (simp add: collidedService_def Let_def create_def of_value_def sampleEnv_reads
      wonderWoman_def flash_def)

lemma heroIds_create: "heroIds (snd (create dto env svc)) = heroIds svc @ [generateId env]"
  by (simp add: create_def heroIds_def Let_def)

lemma heroIds_delete: "heroIds (snd (delete i svc)) = filter (\<lambda>j. j \<noteq> i) (heroIds svc)"
proof (cases "i \<in> set (heroIds svc)")
  case True
  then show ?thesis
    by (simp add: delete_present heroIds_def filter_map comp_def)
next
  case False
  then have "filter (\<lambda>j. j \<noteq> i) (heroIds svc) = heroIds svc"
    by (auto intro: filter_True)
  with False show ?thesis by (simp add: delete_absent)
qed

section \<open>Removing a record, finding a record, names\<close>

lemma filter_unique_id:
  assumes d: "distinct (map f xs)" and n: "n < length xs"
  shows "filter (\<lambda>x. f x \<noteq> f (xs ! n)) xs = take n xs @ drop (Suc n) xs"
proof -
  have other: "\<And>j. j < length xs \<Longrightarrow> j \<noteq> n \<Longrightarrow> f (xs ! j) \<noteq> f (xs ! n)"
  proof -
    fix j assume j: "j < length xs" "j \<noteq> n"
    have "(map f xs ! j = map f xs ! n) = (j = n)"
      using d j n by (intro nth_eq_iff_index_eq) simp_all
    then show "f (xs ! j) \<noteq> f (xs ! n)" using j n by simp
  qed
  have a: "filter (\<lambda>x. f x \<noteq> f (xs ! n)) (take n xs) = take n xs"
  proof (rule filter_True, intro ballI)
    fix x assume "x \<in> set (take n xs)"
    then obtain j where "j < n" "x = xs ! j"
      using n by (auto simp: in_set_conv_nth)
    then show "f x \<noteq> f (xs ! n)" using other[of j] n by simp
  qed
  have b: "filter (\<lambda>x. f x \<noteq> f (xs ! n)) (drop (Suc n) xs) = drop (Suc n) xs"
  proof (rule filter_True, intro ballI)
    fix x assume "x \<in> set (drop (Suc n) xs)"
    then obtain k where "k < length xs - Suc n" "x = xs ! (Suc n + k)"
      by (auto simp: in_set_conv_nth)
    then show "f x \<noteq> f (xs ! n)" using other[of "Suc n + k"] by simp
  qed
  have "xs = take n xs @ xs ! n # drop (Suc n) xs"
    using n by (rule id_take_nth_drop)
  then have "filter (\<lambda>x. f x \<noteq> f (xs ! n)) xs =
             filter (\<lambda>x. f x \<noteq> f (xs ! n)) (take n xs @ xs ! n # drop (Suc n) xs)"
    by simp
  also have "\<dots> = take n xs @ drop (Suc n) xs"
    by (simp only: filter_append filter.simps a b) simp
  finally show ?thesis .
qed

lemma getById_result: "getById i svc = (Inr (find (\<lambda>h. id_of h = i) (heroesSignal svc)), svc)"
  by (simp add: getById_def of_value_def)

lemma named_call:
  assumes a: "list_all (\<lambda>h. name h \<noteq> []) (heroesSignal svc)" and r: "namedRequest r"
  shows "list_all (\<lambda>h. name h \<noteq> []) (heroesSignal (call r svc))"
proof (cases r)
  case (Create dto env)
  then show ?thesis using a r by (simp add: create_def Let_def)
next
  case (Update i dto)
  show ?thesis
  proof (cases "i \<in> set (heroIds svc)")
    case True
    from update_located[OF True, of dto] obtain n where n: "n < length (heroesSignal svc)"
      "update i dto svc =
         (Inr (spread (heroesSignal svc ! n) dto),
          svc\<lparr>heroesSignal := (heroesSignal svc)[n := spread (heroesSignal svc ! n) dto]\<rparr>)"
      by blast
    have old: "name (heroesSignal svc ! n) \<noteq> []"
      using a n(1) by (simp add: list_all_length)
    have new: "name (spread (heroesSignal svc ! n) dto) \<noteq> []"
      using old r Update by (cases "update_name dto") (simp_all add: spread_def)
    have "\<forall>h\<in>set ((heroesSignal svc)[n := spread (heroesSignal svc ! n) dto]). name h \<noteq> []"
    proof
      fix h assume "h \<in> set ((heroesSignal svc)[n := spread (heroesSignal svc ! n) dto])"
      then have "h = spread (heroesSignal svc ! n) dto \<or> h \<in> set (heroesSignal svc)"
        using set_update_subset_insert[of "heroesSignal svc" n] by auto
      then show "name h \<noteq> []" using new a by (auto simp: list_all_iff)
    qed
    then show ?thesis using Update by (simp add: n(2) list_all_iff)
  next
    case False
    then show ?thesis using a Update by (simp add: update_absent)
  qed
next
  case (Delete i)
  show ?thesis
  proof (cases "i \<in> set (heroIds svc)")
    case True
    then show ?thesis using a Delete by (simp add: delete_present list_all_iff)
  next
    case False
    then show ?thesis using a Delete by (simp add: delete_absent)
  qed
next
  case ResetToInitialState
  then show ?thesis by (simp add: resetToInitialState_def)
qed (use a in \<open>simp_all add: getAll_def getById_result searchByName_result\<close>)

lemma named_run:
  "list_all (\<lambda>h. name h \<noteq> []) (heroesSignal svc) \<Longrightarrow> list_all namedRequest rs \<Longrightarrow>
   list_all (\<lambda>h. name h \<noteq> []) (heroesSignal (run rs svc))"
  by (induction rs arbitrary: svc) (simp_all add: named_call)

section \<open>The claims\<close>

text \<open>
  C1. For every state of the collection and every id that a hero of it carries,
  \<open>update\<close> returns the existing record (the one \<open>findIndex\<close> locates, the first
  with that id) with the fields present in the patch overwritten and the other fields,
  \<open>id\<close> and \<open>createdAt\<close> among them, preserved; the updated record stands at the
  position of the original one, the collection keeps its length, and the record at
  every other position is unchanged.
\<close>

theorem update_existing:
  assumes "i \<in> set (heroIds svc)"
  shows "\<exists>n u. n < length (heroesSignal svc) \<and> id_of (heroesSignal svc ! n) = i \<and>
           (\<forall>j<n. id_of (heroesSignal svc ! j) \<noteq> i) \<and>
           u = \<lparr>id_of = id_of (heroesSignal svc ! n),
                name = (case update_name dto of None \<Rightarrow> name (heroesSignal svc ! n) | Some x \<Rightarrow> x),
                description = (case update_description dto of
                                 None \<Rightarrow> description (heroesSignal svc ! n) | Some d \<Rightarrow> d),
                createdAt = createdAt (heroesSignal svc ! n)\<rparr> \<and>
           fst (update i dto svc) = Inr u \<and>
           length (heroesSignal (snd (update i dto svc))) = length (heroesSignal svc) \<and>
           heroesSignal (snd (update i dto svc)) ! n = u \<and>
           (\<forall>j<length (heroesSignal svc). j \<noteq> n \<longrightarrow>
              heroesSignal (snd (update i dto svc)) ! j = heroesSignal svc ! j)"
proof -
  let ?hs = "heroesSignal svc"
  from update_located[OF assms, of dto] obtain n where n: "n < length ?hs"
    "id_of (?hs ! n) = i" "\<forall>j<n. id_of (?hs ! j) \<noteq> i"
    "update i dto svc = (Inr (spread (?hs ! n) dto), svc\<lparr>heroesSignal := ?hs[n := spread (?hs ! n) dto]\<rparr>)"
    by blast
  let ?u = "spread (?hs ! n) dto"
  have u: "?u = \<lparr>id_of = id_of (?hs ! n),
                name = (case update_name dto of None \<Rightarrow> name (?hs ! n) | Some x \<Rightarrow> x),
                description = (case update_description dto of
                                 None \<Rightarrow> description (?hs ! n) | Some d \<Rightarrow> d),
                createdAt = createdAt (?hs ! n)\<rparr>"
    by (simp add: spread_def)
  have r: "fst (update i dto svc) = Inr ?u" by (simp add: n(4))
  have s: "heroesSignal (snd (update i dto svc)) = ?hs[n := ?u]" by (simp add: n(4))
  have l: "length (heroesSignal (snd (update i dto svc))) = length ?hs" by (simp add: s)
  have a: "heroesSignal (snd (update i dto svc)) ! n = ?u" using n(1) by (simp add: s)
  have o: "\<forall>j<length ?hs. j \<noteq> n \<longrightarrow> heroesSignal (snd (update i dto svc)) ! j = ?hs ! j"
    by (simp add: s)
  from n(1) n(2) n(3) u r l a o show ?thesis by blast
qed

theorem update_existing_witness:
  "''1'' \<in> set (heroIds initialService) \<and>
   fst (update ''1'' renamePatch initialService) =
     Inr \<lparr>id_of = ''1'', name = ''Clark Kent'', description = Some ''Man of Steel'',
          createdAt = 1704067200000\<rparr> \<and>
   heroesSignal (snd (update ''1'' renamePatch initialService)) ! 1 = heroesSignal initialService ! 1 \<and>
   heroesSignal (snd (update ''1'' renamePatch initialService)) ! 2 = heroesSignal initialService ! 2"
proof -
  have h: "''1'' \<in> set (heroIds initialService)"
    by (simp add: heroIds_def initialService_def)
  from update_existing[OF h, of renamePatch] obtain n u where
    n: "n < length (heroesSignal initialService)" "id_of (heroesSignal initialService ! n) = ''1''"
    and u: "u = \<lparr>id_of = id_of (heroesSignal initialService ! n),
                name = (case update_name renamePatch of
                          None \<Rightarrow> name (heroesSignal initialService ! n) | Some x \<Rightarrow> x),
                description = (case update_description renamePatch of
                                 None \<Rightarrow> description (heroesSignal initialService ! n)
                               | Some d \<Rightarrow> d),
                createdAt = createdAt (heroesSignal initialService ! n)\<rparr>"
    and r: "fst (update ''1'' renamePatch initialService) = Inr u"
    and o: "\<forall>j<length (heroesSignal initialService). j \<noteq> n \<longrightarrow>
              heroesSignal (snd (update ''1'' renamePatch initialService)) ! j =
              heroesSignal initialService ! j"
    by blast
  have n0: "n = 0"
    using n by (auto simp: initialService_def less_Suc_eq)
  have u0: "u = \<lparr>id_of = ''1'', name = ''Clark Kent'', description = Some ''Man of Steel'',
                 createdAt = 1704067200000\<rparr>"
    unfolding u n0 by (simp add: initialService_def renamePatch_def)
  have "heroesSignal (snd (update ''1'' renamePatch initialService)) ! 1 = heroesSignal initialService ! 1"
    using o n0 by (simp add: initialService_def)
  moreover have "heroesSignal (snd (update ''1'' renamePatch initialService)) ! 2 = heroesSignal initialService ! 2"
    using o n0 by (simp add: initialService_def)
  ultimately show ?thesis using h r u0 by simp
qed

text \<open>
  C2. For every state of the collection and every id, \<open>update\<close> and \<open>delete\<close> fail
  if and only if no hero of the collection carries the id; a failure carries the message
  of \<open>notFound\<close>, which contains \<open>not found\<close> and the id, and leaves the service as
  it was.
\<close>

theorem update_delete_fail_iff_absent:
  "isl (fst (update i dto svc)) = (i \<notin> set (heroIds svc)) \<and>
   isl (fst (delete i svc)) = (i \<notin> set (heroIds svc)) \<and>
   (isl (fst (update i dto svc)) \<longrightarrow>
      fst (update i dto svc) = Inl (notFound i) \<and> snd (update i dto svc) = svc) \<and>
   (isl (fst (delete i svc)) \<longrightarrow>
      fst (delete i svc) = Inl (notFound i) \<and> snd (delete i svc) = svc) \<and>
   includes_str (message (notFound i)) ''not found'' \<and>
   includes_str (message (notFound i)) i"
proof (cases "i \<in> set (heroIds svc)")
  case True
  from update_located[OF True, of dto] have "\<not> isl (fst (update i dto svc))"
    by auto
  moreover have "\<not> isl (fst (delete i svc))"
    by (simp add: delete_present[OF True])
  ultimately show ?thesis
    using True notFound_mentions[of i] by simp
next
  case False
  then show ?thesis
    using notFound_mentions[of i] by (simp add: update_absent delete_absent)
qed

theorem update_delete_fail_iff_absent_witness:
  "isl (fst (update ''nope'' renamePatch initialService)) \<and>
   isl (fst (delete ''nope'' initialService)) \<and>
   fst (update ''nope'' renamePatch initialService) = Inl (Error ''Hero with id nope not found'') \<and>
   snd (update ''nope'' renamePatch initialService) = initialService \<and>
   fst (delete ''nope'' initialService) = Inl (Error ''Hero with id nope not found'') \<and>
   snd (delete ''nope'' initialService) = initialService \<and>
   includes_str ''Hero with id nope not found'' ''not found'' \<and>
   includes_str ''Hero with id nope not found'' ''nope''"
proof -
  have a: "''nope'' \<notin> set (heroIds initialService)"
    by (simp add: heroIds_def initialService_def)
  have m: "notFound ''nope'' = Error ''Hero with id nope not found''"
    by (simp add: notFound_def)
  show ?thesis
    using update_delete_fail_iff_absent[of "''nope''" renamePatch initialService] a
    by (simp add: m)
qed

text \<open>
  C3. For every state and every term, \<open>searchByName\<close> works with the term trimmed and
  lower-cased. When that normalised term is empty the call returns what \<open>getAll\<close>
  returns; otherwise it emits, in the order of the collection, exactly the heroes whose
  lower-cased name has the normalised term as a substring. The terms \<open>"  MAN  "\<close> and
  \<open>"man"\<close> give the same result in every state.
\<close>

theorem searchByName_normalized:
  "fst (searchByName term svc) =
     Inr (if normalizedSpec term = [] then heroesSignal svc
          else filter (\<lambda>h. \<exists>p q. toLowerCase (name h) = p @ normalizedSpec term @ q)
                 (heroesSignal svc)) \<and>
   (normalizedSpec term = [] \<longrightarrow> searchByName term svc = getAll svc) \<and>
   searchByName ''  MAN  '' svc = searchByName ''man'' svc"
proof -
  have n: "trim (toLowerCase term) = normalizedSpec term"
    by (simp add: normalizedSpec_def trim_toLowerCase)
  have a: "fst (searchByName term svc) =
     Inr (if normalizedSpec term = [] then heroesSignal svc
          else filter (\<lambda>h. \<exists>p q. toLowerCase (name h) = p @ normalizedSpec term @ q)
                 (heroesSignal svc))"
    by (simp add: searchByName_result n includes_str_iff)
  have b: "normalizedSpec term = [] \<longrightarrow> searchByName term svc = getAll svc"
    by (simp add: searchByName_result n getAll_def of_value_def)
  have m: "trim (toLowerCase ''  MAN  '') = trim (toLowerCase ''man'')"
    by code_simp
  have c: "searchByName ''  MAN  '' svc = searchByName ''man'' svc"
    by (simp only: searchByName_result m)
  from a b c show ?thesis by blast
qed

theorem searchByName_normalized_witness:
  "normalizedSpec ''  '' = [] \<and> searchByName ''  '' initialService = getAll initialService \<and>
   normalizedSpec ''  MAN  '' = ''man'' \<and>
   fst (searchByName ''  MAN  '' initialService) = Inr (heroesSignal initialService) \<and>
   fst (searchByName ''SUPER'' initialService) = Inr [heroesSignal initialService ! 0] \<and>
   fst (searchByName ''Ironman'' initialService) = Inr []"
proof -
  have e: "normalizedSpec ''  '' = []" by code_simp
  have g: "searchByName ''  '' initialService = getAll initialService"
    using searchByName_normalized[of "''  ''" initialService] e by simp
  have m: "normalizedSpec ''  MAN  '' = ''man''" by code_simp
  have s1: "fst (searchByName ''  MAN  '' initialService) = Inr (heroesSignal initialService)"
    by code_simp
  have s2: "fst (searchByName ''SUPER'' initialService) = Inr [heroesSignal initialService ! 0]"
    by code_simp
  have s3: "fst (searchByName ''Ironman'' initialService) = Inr []"
    by code_simp
  from e g m s1 s2 s3 show ?thesis by simp
qed




text \<open>
  C5. The claim: in every reachable state no two heroes of the collection share an id, and
  an id issued by \<open>create\<close> differs from every id the collection ever held, also from
  the ids of deleted heroes. \<open>generateId\<close> joins the reading of \<open>Date.now()\<close> and
  nine characters of the random fraction and compares the result with nothing. At the calls
  below, two calls of \<open>create\<close> at the same readings leave two heroes with one id in
  the collection, and after the first of them is deleted a later \<open>create\<close> issues its
  id once more.
\<close>

theorem generateId_collision:
  "heroIds (run [Create wonderWoman sampleEnv, Create flash sampleEnv] initialService) =
     [''1'', ''2'', ''3'', ''1717243200001-4fzyo82mv'', ''1717243200001-4fzyo82mv''] \<and>
   \<not> distinct (heroIds (run [Create wonderWoman sampleEnv, Create flash sampleEnv] initialService)) \<and>
   ''1717243200001-4fzyo82mv'' \<in> set (heroIds (run [Create wonderWoman sampleEnv] initialService)) \<and>
   ''1717243200001-4fzyo82mv'' \<notin> set (heroIds (run [Create wonderWoman sampleEnv,
        Delete ''1717243200001-4fzyo82mv''] initialService)) \<and>
   id_of (projr (fst (create flash sampleEnv (run [Create wonderWoman sampleEnv,
        Delete ''1717243200001-4fzyo82mv''] initialService)))) = ''1717243200001-4fzyo82mv''"
proof -
  have s: "heroIds (run [Create wonderWoman sampleEnv, Create flash sampleEnv] initialService) =
     [''1'', ''2'', ''3'', ''1717243200001-4fzyo82mv'', ''1717243200001-4fzyo82mv'']"
    by (simp add: heroIds_create sampleEnv_reads) (simp add: heroIds_def initialService_def)
  have a: "\<not> distinct (heroIds (run [Create wonderWoman sampleEnv, Create flash sampleEnv] initialService))"
    by (simp only: s) simp
  have b: "''1717243200001-4fzyo82mv'' \<in> set (heroIds (run [Create wonderWoman sampleEnv] initialService))"
    by (simp add: heroIds_create sampleEnv_reads)
  have c: "''1717243200001-4fzyo82mv'' \<notin> set (heroIds (run [Create wonderWoman sampleEnv,
        Delete ''1717243200001-4fzyo82mv''] initialService))"
    by (simp add: heroIds_delete)
  have d: "id_of (projr (fst (create flash sampleEnv (run [Create wonderWoman sampleEnv,
        Delete ''1717243200001-4fzyo82mv''] initialService)))) = ''1717243200001-4fzyo82mv''"
    by (simp add: create_def of_value_def sampleEnv_reads Let_def)
  from s a b c d show ?thesis by blast
qed

text \<open>
  C6 (amended). For every state and every id that a hero of the collection carries,
  \<open>delete\<close> emits the void value and keeps, in their order, exactly the records with
  another id, so the length drops by the number of records with that id. Where no two
  heroes share an id the length drops by exactly one and the collection is the old one
  without the record at the position of that id.
\<close>

theorem delete_existing:
  assumes "i \<in> set (heroIds svc)"
  shows "fst (delete i svc) = Inr () \<and>
         heroesSignal (snd (delete i svc)) = filter (\<lambda>h. id_of h \<noteq> i) (heroesSignal svc) \<and>
         length (heroesSignal (snd (delete i svc))) +
           length (filter (\<lambda>h. id_of h = i) (heroesSignal svc)) = length (heroesSignal svc) \<and>
         (distinct (heroIds svc) \<longrightarrow>
            length (heroesSignal (snd (delete i svc))) + 1 = length (heroesSignal svc) \<and>
            (\<exists>n<length (heroesSignal svc). id_of (heroesSignal svc ! n) = i \<and>
               heroesSignal (snd (delete i svc)) =
                 take n (heroesSignal svc) @ drop (Suc n) (heroesSignal svc)))"
proof -
  let ?hs = "heroesSignal svc"
  have r: "fst (delete i svc) = Inr ()"
    by (simp add: delete_present[OF assms])
  have s: "heroesSignal (snd (delete i svc)) = filter (\<lambda>h. id_of h \<noteq> i) ?hs"
    by (simp add: delete_present[OF assms])
  have l: "length (heroesSignal (snd (delete i svc))) + length (filter (\<lambda>h. id_of h = i) ?hs) = length ?hs"
    using sum_length_filter_compl[of "\<lambda>h. id_of h = i" ?hs] by (simp add: s)
  have u: "distinct (heroIds svc) \<longrightarrow>
            length (heroesSignal (snd (delete i svc))) + 1 = length ?hs \<and>
            (\<exists>n<length ?hs. id_of (?hs ! n) = i \<and>
               heroesSignal (snd (delete i svc)) = take n ?hs @ drop (Suc n) ?hs)"
  proof
    assume d: "distinct (heroIds svc)"
    from assms obtain n where n: "n < length ?hs" "id_of (?hs ! n) = i"
      by (auto simp: heroIds_def in_set_conv_nth)
    have f: "heroesSignal (snd (delete i svc)) = take n ?hs @ drop (Suc n) ?hs"
      using filter_unique_id[of id_of ?hs n] d n by (simp add: s heroIds_def)
    have "length (heroesSignal (snd (delete i svc))) + 1 = length ?hs"
      using n(1) by (simp add: f)
    with n f show "length (heroesSignal (snd (delete i svc))) + 1 = length ?hs \<and>
            (\<exists>n<length ?hs. id_of (?hs ! n) = i \<and>
               heroesSignal (snd (delete i svc)) = take n ?hs @ drop (Suc n) ?hs)"
      by blast
  qed
  from r s l u show ?thesis by blast
qed

theorem delete_existing_witness:
  "''1'' \<in> set (heroIds initialService) \<and> distinct (heroIds initialService) \<and>
   fst (delete ''1'' initialService) = Inr () \<and>
   length (heroesSignal (snd (delete ''1'' initialService))) + 1 = length (heroesSignal initialService) \<and>
   heroesSignal (snd (delete ''1'' initialService)) = drop 1 (heroesSignal initialService)"
proof -
  have h: "''1'' \<in> set (heroIds initialService)"
    by (simp add: heroIds_def initialService_def)
  have d: "distinct (heroIds initialService)"
    by (simp add: heroIds_def initialService_def)
  have "heroesSignal (snd (delete ''1'' initialService)) =
          filter (\<lambda>h. id_of h \<noteq> ''1'') (heroesSignal initialService)"
    using delete_existing[OF h] by blast
  then have e: "heroesSignal (snd (delete ''1'' initialService)) = drop 1 (heroesSignal initialService)"
    by (simp add: initialService_def)
  from delete_existing[OF h] h d e show ?thesis by blast
qed

theorem delete_duplicates_counterexample:
  "''1717243200001-4fzyo82mv'' \<in> set (heroIds collidedService) \<and>
   length (heroesSignal collidedService) = 5 \<and>
   fst (delete ''1717243200001-4fzyo82mv'' collidedService) = Inr () \<and>
   length (heroesSignal (snd (delete ''1717243200001-4fzyo82mv'' collidedService))) = 3"
proof -
  have h: "''1717243200001-4fzyo82mv'' \<in> set (heroIds collidedService)"
    by (simp add: heroIds_def collided_state)
  have l: "length (heroesSignal collidedService) = 5"
    by (simp add: collided_state initialService_def)
  have "heroesSignal (snd (delete ''1717243200001-4fzyo82mv'' collidedService)) =
          heroesSignal initialService"
    by (simp add: delete_present[OF h] collided_state initialService_def)
  then have "length (heroesSignal (snd (delete ''1717243200001-4fzyo82mv'' collidedService))) = 3"
    by (simp add: initialService_def)
  with h l show ?thesis by (simp add: delete_present[OF h])
qed

text \<open>
  C7 (amended). \<open>getById\<close> never emits an error. For an id that no hero carries it emits
  the empty result; for the id of a hero of the collection it emits the first record with
  that id, which is that hero where no two heroes share an id.
\<close>

theorem getById_first_match:
  "\<not> isl (fst (getById i svc)) \<and>
   (i \<notin> set (heroIds svc) \<longrightarrow> fst (getById i svc) = Inr None) \<and>
   (\<forall>h\<in>set (heroesSignal svc).
      \<exists>n<length (heroesSignal svc). id_of (heroesSignal svc ! n) = id_of h \<and>
        (\<forall>j<n. id_of (heroesSignal svc ! j) \<noteq> id_of h) \<and>
        fst (getById (id_of h) svc) = Inr (Some (heroesSignal svc ! n))) \<and>
   (distinct (heroIds svc) \<longrightarrow>
      (\<forall>h\<in>set (heroesSignal svc). fst (getById (id_of h) svc) = Inr (Some h)))"
proof -
  let ?hs = "heroesSignal svc"
  have a: "\<not> isl (fst (getById i svc))"
    by (simp add: getById_result)
  have b: "i \<notin> set (heroIds svc) \<longrightarrow> fst (getById i svc) = Inr None"
    by (auto simp: getById_result heroIds_def find_None_iff)
  have c: "\<forall>h\<in>set ?hs. \<exists>n<length ?hs. id_of (?hs ! n) = id_of h \<and>
        (\<forall>j<n. id_of (?hs ! j) \<noteq> id_of h) \<and>
        fst (getById (id_of h) svc) = Inr (Some (?hs ! n))"
  proof
    fix h assume h: "h \<in> set ?hs"
    then have "find (\<lambda>x. id_of x = id_of h) ?hs \<noteq> None"
      by (auto simp: find_None_iff)
    then obtain x where "find (\<lambda>x. id_of x = id_of h) ?hs = Some x" by blast
    then obtain n where "n < length ?hs" "id_of (?hs ! n) = id_of h" "x = ?hs ! n"
      "\<forall>j<n. id_of (?hs ! j) \<noteq> id_of h" "find (\<lambda>x. id_of x = id_of h) ?hs = Some (?hs ! n)"
      by (auto simp: find_Some_iff)
    then show "\<exists>n<length ?hs. id_of (?hs ! n) = id_of h \<and>
        (\<forall>j<n. id_of (?hs ! j) \<noteq> id_of h) \<and>
        fst (getById (id_of h) svc) = Inr (Some (?hs ! n))"
      by (auto simp: getById_result)
  qed
  have d: "distinct (heroIds svc) \<longrightarrow> (\<forall>h\<in>set ?hs. fst (getById (id_of h) svc) = Inr (Some h))"
  proof (intro impI ballI)
    fix h assume dis: "distinct (heroIds svc)" and h: "h \<in> set ?hs"
    from h obtain m where m: "m < length ?hs" "h = ?hs ! m"
      by (auto simp: in_set_conv_nth)
    from c h obtain n where n: "n < length ?hs" "id_of (?hs ! n) = id_of h"
      "fst (getById (id_of h) svc) = Inr (Some (?hs ! n))" by blast
    have e: "map id_of ?hs ! n = map id_of ?hs ! m"
      using n m by simp
    have "(map id_of ?hs ! n = map id_of ?hs ! m) = (n = m)"
      using dis n(1) m(1) by (intro nth_eq_iff_index_eq) (simp_all add: heroIds_def)
    with e have "n = m" by blast
    then show "fst (getById (id_of h) svc) = Inr (Some h)"
      using n(3) m(2) by simp
  qed
  from a b c d show ?thesis by blast
qed

theorem getById_first_match_witness:
  "distinct (heroIds initialService) \<and> ''nope'' \<notin> set (heroIds initialService) \<and>
   fst (getById ''nope'' initialService) = Inr None \<and>
   heroesSignal initialService ! 1 \<in> set (heroesSignal initialService) \<and>
   fst (getById ''2'' initialService) = Inr (Some (heroesSignal initialService ! 1))"
proof -
  have d: "distinct (heroIds initialService)"
    by (simp add: heroIds_def initialService_def)
  have a: "''nope'' \<notin> set (heroIds initialService)"
    by (simp add: heroIds_def initialService_def)
  have m: "heroesSignal initialService ! 1 \<in> set (heroesSignal initialService)"
    by (simp add: initialService_def)
  have i: "id_of (heroesSignal initialService ! 1) = ''2''"
    by (simp add: initialService_def)
  from getById_first_match[of "''nope''" initialService] a
  have n: "fst (getById ''nope'' initialService) = Inr None" by blast
  from getById_first_match[of "''nope''" initialService] d m
  have "fst (getById (id_of (heroesSignal initialService ! 1)) initialService) =
          Inr (Some (heroesSignal initialService ! 1))" by blast
  then have "fst (getById ''2'' initialService) = Inr (Some (heroesSignal initialService ! 1))"
    by (simp only: i)
  with d a n m show ?thesis by blast
qed

theorem getById_duplicates_counterexample:
  "heroesSignal collidedService ! 4 \<in> set (heroesSignal collidedService) \<and>
   name (heroesSignal collidedService ! 4) = ''Flash'' \<and>
   fst (getById (id_of (heroesSignal collidedService ! 4)) collidedService) =
     Inr (Some (heroesSignal collidedService ! 3)) \<and>
   name (heroesSignal collidedService ! 3) = ''Wonder Woman'' \<and>
   fst (getById (id_of (heroesSignal collidedService ! 4)) collidedService) \<noteq>
     Inr (Some (heroesSignal collidedService ! 4))"
  by (simp add: getById_result collided_state initialService_def)

text \<open>
  C8 (amended). \<open>create\<close> copies the name of the request without any check. In every
  state reached from the constructed service by calls whose \<open>create\<close> requests carry a
  non-empty name and whose \<open>update\<close> patches, of the declared shape, have no
  \<open>name\<close> property or one that holds a non-empty string, every hero has a non-empty
  name.
\<close>

theorem named_run_keeps_names:
  "(list_all namedRequest rs \<longrightarrow>
      list_all (\<lambda>h. name h \<noteq> []) (heroesSignal (run rs initialService))) \<and>
   (\<exists>h. fst (create dto env svc) = Inr h \<and> name h = create_name dto)"
proof -
  have "list_all (\<lambda>h. name h \<noteq> []) (heroesSignal initialService)"
    by (simp add: initialService_def)
  then have "list_all namedRequest rs \<longrightarrow>
      list_all (\<lambda>h. name h \<noteq> []) (heroesSignal (run rs initialService))"
    by (simp add: named_run)
  then show ?thesis by (simp add: create_def of_value_def Let_def)
qed

theorem named_run_keeps_names_witness:
  "list_all namedRequest [Create wonderWoman sampleEnv, Delete ''1'', Update ''2'' renamePatch] \<and>
   list_all (\<lambda>h. name h \<noteq> [])
     (heroesSignal (run [Create wonderWoman sampleEnv, Delete ''1'', Update ''2'' renamePatch]
        initialService)) \<and>
   name (heroesSignal (run [Create wonderWoman sampleEnv, Delete ''1'', Update ''2'' renamePatch]
        initialService) ! 2) = ''Wonder Woman''"
proof -
  have n: "list_all namedRequest [Create wonderWoman sampleEnv, Delete ''1'', Update ''2'' renamePatch]"
    by (simp add: wonderWoman_def renamePatch_def)
  have w: "name (heroesSignal (run [Create wonderWoman sampleEnv, Delete ''1'', Update ''2'' renamePatch]
        initialService) ! 2) = ''Wonder Woman''"
    by (simp only: sample_run_state) simp
  from named_run_keeps_names[of "[Create wonderWoman sampleEnv, Delete ''1'', Update ''2'' renamePatch]"
      wonderWoman sampleEnv initialService] n w
  show ?thesis by blast
qed

theorem empty_name_counterexample:
  "fst (create nameless sampleEnv initialService) =
     Inr \<lparr>id_of = ''1717243200001-4fzyo82mv'', name = [], description = None,
          createdAt = 1717243200001\<rparr> \<and>
   name (heroesSignal (run [Create nameless sampleEnv] initialService) ! 3) = []"
  by (simp add: create_def of_value_def Let_def sampleEnv_reads nameless_def initialService_def)

text \<open>
  C9. From every state, \<open>resetToInitialState\<close> gives the service as constructed: the
  collection is the three seed records with ids 1, 2 and 3, in that order, whatever calls
  came before.
\<close>

theorem reset_restores_seed:
  "resetToInitialState svc = initialService \<and>
   heroesSignal (resetToInitialState (run rs initialService)) =
     [\<lparr>id_of = ''1'', name = ''Superman'', description = Some ''Man of Steel'',
        createdAt = 1704067200000\<rparr>,
      \<lparr>id_of = ''2'', name = ''Spiderman'',
        description = Some ''Your friendly neighborhood Spider-Man'',
        createdAt = 1704153600000\<rparr>,
      \<lparr>id_of = ''3'', name = ''Batman'', description = Some ''The Dark Knight'',
        createdAt = 1704240000000\<rparr>]"
  by (simp add: resetToInitialState_def initialService_def)

theorem reset_restores_seed_witness:
  "length (heroesSignal (run [Create wonderWoman sampleEnv, Delete ''1'', Update ''2'' renamePatch]
      initialService)) = 3 \<and>
   id_of (heroesSignal (run [Create wonderWoman sampleEnv, Delete ''1'', Update ''2'' renamePatch]
      initialService) ! 0) = ''2'' \<and>
   resetToInitialState (run [Create wonderWoman sampleEnv, Delete ''1'', Update ''2'' renamePatch]
      initialService) = initialService \<and>
   id_of (heroesSignal initialService ! 0) = ''1''"
proof -
  let ?s = "run [Create wonderWoman sampleEnv, Delete ''1'', Update ''2'' renamePatch] initialService"
  have a: "length (heroesSignal ?s) = 3"
    by (simp only: sample_run_state) simp
  have b: "id_of (heroesSignal ?s ! 0) = ''2''"
    by (simp only: sample_run_state) simp
  have c: "id_of (heroesSignal initialService ! 0) = ''1''"
    by (simp add: initialService_def)
  from reset_restores_seed[of ?s "[]"] have d: "resetToInitialState ?s = initialService"
    by blast
  from a b d c show ?thesis by blast
qed

text \<open>
  C10. \<open>getAll\<close>, \<open>getById\<close> and \<open>searchByName\<close> return the service they were
  given, for all arguments; a call that changes the service is a \<open>create\<close>, an
  \<open>update\<close>, a \<open>delete\<close> or a \<open>resetToInitialState\<close>.
\<close>

theorem queries_leave_state:
  "snd (getAll svc) = svc \<and> snd (getById i svc) = svc \<and> snd (searchByName term svc) = svc \<and>
   (call r svc \<noteq> svc \<longrightarrow> isMutation r)"
  by (cases r) (simp_all add: getAll_def getById_def searchByName_result)

theorem queries_leave_state_witness:
  "call (Delete ''1'') initialService \<noteq> initialService \<and> isMutation (Delete ''1'') \<and>
   snd (getAll initialService) = initialService \<and>
   snd (getById ''1'' initialService) = initialService \<and>
   snd (searchByName ''man'' initialService) = initialService"
proof -
  have a: "call (Delete ''1'') initialService \<noteq> initialService"
    by (simp add: delete_def initialService_def of_value_def)
  show ?thesis
    using queries_leave_state[of initialService "''1''" "''man''" "Delete ''1''"] a by simp
qed

end
